theory Spec2Isabelle
  imports Main "HOL-Library.Multiset" "HOL-Library.Product_Lexorder"
begin

section \<open>JavaScript values used by renderer.js\<close>

text \<open>
  The renderer receives its tasks as parsed JSON, so a field the code calls a string
  method on may hold any JSON value. \<open>jsval\<close> covers the JSON values without objects;
  the fields \<open>title\<close>, \<open>description\<close> and \<open>tags\<close> of a task are of this type, because
  \<open>getFilteredAndSortedTasks\<close> calls \<open>toLowerCase\<close> and \<open>some\<close> on them and a call on
  a value of the wrong kind throws a TypeError.
\<close>

datatype jsval = JUndefined | JNull | JBool bool | JNum int | JStr string | JArr "jsval list"

text \<open>ToBoolean, as used by \<open>&&\<close>, \<open>||\<close> and \<open>if\<close>.\<close>

fun truthy :: "jsval \<Rightarrow> bool" where
  "truthy JUndefined = False"
| "truthy JNull = False"
| "truthy (JBool b) = b"
| "truthy (JNum n) = (n \<noteq> 0)"
| "truthy (JStr s) = (s \<noteq> [])"
| "truthy (JArr vs) = True"

datatype js_error = TypeError

text \<open>
  A number as a sort comparator returns it: either NaN or a finite value. The finite
  values that occur are differences of time values and of ranks, which are integers.
\<close>

datatype jsnum = NaN | Num int

text \<open>
  The value of \<open>new Date(v)\<close>: a time value in milliseconds since the epoch, or an
  Invalid Date (time value NaN) when \<open>v\<close> does not parse.
\<close>

datatype jsdate = InvalidDate | TimeValue int

text \<open>\<open>d < n\<close> and \<open>d >= n\<close> between a Date and a valid Date with time value \<open>n\<close>:
  every comparison with NaN is false.\<close>

fun date_lt :: "jsdate \<Rightarrow> int \<Rightarrow> bool" where
  "date_lt InvalidDate n = False"
| "date_lt (TimeValue v) n = (v < n)"

fun date_ge :: "jsdate \<Rightarrow> int \<Rightarrow> bool" where
  "date_ge InvalidDate n = False"
| "date_ge (TimeValue v) n = (v \<ge> n)"

text \<open>\<open>a - b\<close> on two Dates.\<close>

fun date_minus :: "jsdate \<Rightarrow> jsdate \<Rightarrow> jsnum" where
  "date_minus (TimeValue a) (TimeValue b) = Num (a - b)"
| "date_minus _ _ = NaN"

subsection \<open>Strings\<close>

text \<open>
  Strings are modelled as lists of 8-bit characters and stand for ASCII text:
  \<open>toLowerCase\<close> maps \<open>A\<close>..\<open>Z\<close> to \<open>a\<close>..\<open>z\<close> and leaves every other character alone,
  \<open>trim\<close> removes the ASCII white space and line terminators (TAB, LF, VT, FF, CR,
  SPACE) from both ends.
\<close>

definition toLowerCase_char :: "char \<Rightarrow> char" where
  "toLowerCase_char c =
     (let n = (of_char c :: nat) in if 65 \<le> n \<and> n \<le> 90 then char_of (n + 32) else c)"

definition toLowerCase :: "string \<Rightarrow> string" where
  "toLowerCase s = map toLowerCase_char s"

definition isWhiteSpace :: "char \<Rightarrow> bool" where
  "isWhiteSpace c = (let n = (of_char c :: nat) in (9 \<le> n \<and> n \<le> 13) \<or> n = 32)"

definition trim :: "string \<Rightarrow> string" where
  "trim s = rev (dropWhile isWhiteSpace (rev (dropWhile isWhiteSpace s)))"

fun startsWith :: "string \<Rightarrow> string \<Rightarrow> bool" where
  "startsWith s [] = True"
| "startsWith [] (c # cs) = False"
| "startsWith (x # xs) (c # cs) = (x = c \<and> startsWith xs cs)"

text \<open>\<open>s.includes(sub)\<close>: \<open>sub\<close> occurs in \<open>s\<close> at some position.\<close>

fun String_includes :: "string \<Rightarrow> string \<Rightarrow> bool" where
  "String_includes [] sub = (sub = [])"
| "String_includes (x # xs) sub = (startsWith (x # xs) sub \<or> String_includes xs sub)"

section \<open>Tasks\<close>

text \<open>
  A task as the backend returns it: an object of the array \<open>tasks\<close>. \<open>due_date\<close> is
  \<open>None\<close> when the field is falsy (absent, null or the empty string) and otherwise holds
  the Date that \<open>new Date(task.due_date)\<close> builds, so a due date is compared by its time
  value, as the code compares it; \<open>updated_at\<close> holds \<open>new Date(task.updated_at)\<close>.
  \<open>category_id\<close> is \<open>None\<close> for null. \<open>status\<close> and \<open>priority\<close> are the strings the code
  compares and looks up; they are not restricted to the values of the data model.
\<close>

record task =
  task_id :: string
  title :: jsval
  category_id :: "string option"
  priority :: string
  due_date :: "jsdate option"
  status :: string
  description :: jsval
  tags :: jsval
  updated_at :: jsdate

section \<open>Array.prototype.sort\<close>

text \<open>
  \<open>Array.prototype.sort\<close> with a comparator. The comparator's result \<open>v\<close> is used as
  the specification's SortCompare does: NaN counts as \<open>+0\<close>. The sort is stable
  (ECMAScript 2019; V8 since 7.0), and for a consistent comparator the result is then
  determined: it is the stable insertion sort below. For a comparator that is not
  consistent the order is implementation-defined, and the function below is one
  admissible outcome.
\<close>

definition SortCompare :: "('a \<Rightarrow> 'a \<Rightarrow> jsnum) \<Rightarrow> 'a \<Rightarrow> 'a \<Rightarrow> int" where
  "SortCompare comparefn x y = (case comparefn x y of NaN \<Rightarrow> 0 | Num v \<Rightarrow> v)"

fun insert_sorted :: "('a \<Rightarrow> 'a \<Rightarrow> jsnum) \<Rightarrow> 'a \<Rightarrow> 'a list \<Rightarrow> 'a list" where
  "insert_sorted comparefn x [] = [x]"
| "insert_sorted comparefn x (y # ys) =
     (if SortCompare comparefn x y \<le> 0 then x # y # ys
      else y # insert_sorted comparefn x ys)"

definition Array_sort :: "('a \<Rightarrow> 'a \<Rightarrow> jsnum) \<Rightarrow> 'a list \<Rightarrow> 'a list" where
  "Array_sort comparefn xs = foldr (insert_sorted comparefn) xs []"

section \<open>The environment\<close>

text \<open>
  What the code reads from outside: the wall clock (\<open>clock e k\<close> is the ISO string of
  the \<open>k\<close>-th \<open>new Date()\<close> taken by the logger), the local midnight that
  \<open>today.setHours(0, 0, 0, 0)\<close> yields and the one after \<open>setDate(getDate() + 1)\<close>,
  whether \<open>localStorage.setItem\<close> accepts a buffer (it throws when the quota is
  exceeded), the stack text the engine attaches to a \<open>new Error\<close>, and the TypeError
  object the engine throws.
\<close>

record err_obj =
  err_message :: "string option"
  err_stack :: "string option"

record log_entry =
  timestamp :: string
  level :: string
  message :: string
  error :: "err_obj option"

record env =
  clock :: "nat \<Rightarrow> string"
  today :: int
  tomorrow :: int
  storage_accepts :: "log_entry list \<Rightarrow> bool"
  engine_stack :: string
  engine_TypeError :: err_obj

section \<open>The renderer's state\<close>

text \<open>
  The module's globals, the two form controls that \<open>getFilteredAndSortedTasks\<close>
  reads, the \<open>frontendLogs\<close> key of localStorage (\<open>None\<close> when the key is absent), the
  console lines written (method and text), the entries posted to \<open>/logs\<close> and the
  number of clock readings taken so far.
\<close>

record app =
  tasks :: "task list"
  currentFilter :: string
  currentCategory :: string
  searchInput :: string
  sortSelect :: string
  frontendLogs :: "log_entry list option"
  console :: "(string \<times> string) list"
  posted :: "log_entry list"
  ticks :: nat

section \<open>getFilteredAndSortedTasks\<close>

subsection \<open>Status filter\<close>

definition is_overdue :: "env \<Rightarrow> task \<Rightarrow> bool" where
  "is_overdue e t =
     (case due_date t of
        None \<Rightarrow> False
      | Some d \<Rightarrow> date_lt d (today e) \<and> status t \<noteq> ''completed'')"

definition is_due_soon :: "env \<Rightarrow> task \<Rightarrow> bool" where
  "is_due_soon e t =
     (case due_date t of
        None \<Rightarrow> False
      | Some d \<Rightarrow> date_ge d (today e) \<and> date_lt d (tomorrow e) \<and> status t \<noteq> ''completed'')"

definition statusFilter :: "env \<Rightarrow> string \<Rightarrow> task list \<Rightarrow> task list" where
  "statusFilter e f filtered =
     (if f \<noteq> ''all'' then
        (if f = ''todo'' then filter (\<lambda>t. status t = ''todo'') filtered
         else if f = ''in_progress'' then filter (\<lambda>t. status t = ''in_progress'') filtered
         else if f = ''completed'' then filter (\<lambda>t. status t = ''completed'') filtered
         else if f = ''overdue'' then filter (is_overdue e) filtered
         else if f = ''due_soon'' then filter (is_due_soon e) filtered
         else filtered)
      else filtered)"

subsection \<open>Category filter\<close>

definition categoryFilter :: "string \<Rightarrow> task list \<Rightarrow> task list" where
  "categoryFilter c filtered =
     (if c \<noteq> ''all'' then filter (\<lambda>t. category_id t = Some c) filtered else filtered)"

subsection \<open>Search filter\<close>

text \<open>
  \<open>Array.prototype.filter\<close> and \<open>Array.prototype.some\<close> with a callback that may throw:
  the elements are visited in order and the first exception ends the call; \<open>some\<close> stops
  at the first element for which the callback holds.
\<close>

fun filter_err :: "('a \<Rightarrow> js_error + bool) \<Rightarrow> 'a list \<Rightarrow> js_error + 'a list" where
  "filter_err p [] = Inr []"
| "filter_err p (x # xs) =
     (case p x of
        Inl err \<Rightarrow> Inl err
      | Inr b \<Rightarrow>
          (case filter_err p xs of
             Inl err \<Rightarrow> Inl err
           | Inr ys \<Rightarrow> Inr (if b then x # ys else ys)))"

fun some_err :: "('a \<Rightarrow> js_error + bool) \<Rightarrow> 'a list \<Rightarrow> js_error + bool" where
  "some_err p [] = Inr False"
| "some_err p (x # xs) =
     (case p x of
        Inl err \<Rightarrow> Inl err
      | Inr True \<Rightarrow> Inr True
      | Inr False \<Rightarrow> some_err p xs)"

text \<open>\<open>v.toLowerCase().includes(searchTerm)\<close>: a TypeError unless \<open>v\<close> is a string.\<close>

fun lower_includes :: "string \<Rightarrow> jsval \<Rightarrow> js_error + bool" where
  "lower_includes searchTerm (JStr s) = Inr (String_includes (toLowerCase s) searchTerm)"
| "lower_includes searchTerm _ = Inl TypeError"

text \<open>\<open>task.description && task.description.toLowerCase().includes(searchTerm)\<close>\<close>

definition description_matches :: "string \<Rightarrow> task \<Rightarrow> js_error + bool" where
  "description_matches searchTerm t =
     (if truthy (description t) then lower_includes searchTerm (description t) else Inr False)"

text \<open>\<open>task.tags && task.tags.some(tag => tag.toLowerCase().includes(searchTerm))\<close>:
  \<open>some\<close> exists on arrays only.\<close>

definition tags_match :: "string \<Rightarrow> task \<Rightarrow> js_error + bool" where
  "tags_match searchTerm t =
     (if truthy (tags t) then
        (case tags t of
           JArr vs \<Rightarrow> some_err (lower_includes searchTerm) vs
         | _ \<Rightarrow> Inl TypeError)
      else Inr False)"

text \<open>The callback of the search filter; \<open>||\<close> evaluates its right operand only when
  the left one is falsy.\<close>

definition matchesSearch :: "string \<Rightarrow> task \<Rightarrow> js_error + bool" where
  "matchesSearch searchTerm t =
     (case lower_includes searchTerm (title t) of
        Inl err \<Rightarrow> Inl err
      | Inr True \<Rightarrow> Inr True
      | Inr False \<Rightarrow>
          (case description_matches searchTerm t of
             Inl err \<Rightarrow> Inl err
           | Inr True \<Rightarrow> Inr True
           | Inr False \<Rightarrow> tags_match searchTerm t))"

definition searchFilter :: "string \<Rightarrow> task list \<Rightarrow> js_error + task list" where
  "searchFilter input filtered =
     (let searchTerm = trim (toLowerCase input)
      in if searchTerm \<noteq> [] then filter_err (matchesSearch searchTerm) filtered
         else Inr filtered)"

subsection \<open>Sort\<close>

definition cmp_updated_at_desc :: "task \<Rightarrow> task \<Rightarrow> jsnum" where
  "cmp_updated_at_desc a b = date_minus (updated_at b) (updated_at a)"

definition cmp_updated_at_asc :: "task \<Rightarrow> task \<Rightarrow> jsnum" where
  "cmp_updated_at_asc a b = date_minus (updated_at a) (updated_at b)"

definition cmp_due_date_asc :: "task \<Rightarrow> task \<Rightarrow> jsnum" where
  "cmp_due_date_asc a b =
     (case (due_date a, due_date b) of
        (None, None) \<Rightarrow> Num 0
      | (None, Some db) \<Rightarrow> Num 1
      | (Some da, None) \<Rightarrow> Num (- 1)
      | (Some da, Some db) \<Rightarrow> date_minus da db)"

definition cmp_due_date_desc :: "task \<Rightarrow> task \<Rightarrow> jsnum" where
  "cmp_due_date_desc a b =
     (case (due_date a, due_date b) of
        (None, None) \<Rightarrow> Num 0
      | (None, Some db) \<Rightarrow> Num (- 1)
      | (Some da, None) \<Rightarrow> Num 1
      | (Some da, Some db) \<Rightarrow> date_minus db da)"

text \<open>The lookup \<open>priorityOrder[p]\<close>: \<open>None\<close> is \<open>undefined\<close>.\<close>

definition priorityOrder :: "string \<Rightarrow> int option" where
  "priorityOrder p =
     (if p = ''high'' then Some 0
      else if p = ''medium'' then Some 1
      else if p = ''low'' then Some 2
      else None)"

text \<open>\<open>priorityOrder[a.priority] - priorityOrder[b.priority]\<close>: a subtraction with
  \<open>undefined\<close> is NaN.\<close>

definition cmp_priority :: "task \<Rightarrow> task \<Rightarrow> jsnum" where
  "cmp_priority a b =
     (case (priorityOrder (priority a), priorityOrder (priority b)) of
        (Some ra, Some rb) \<Rightarrow> Num (ra - rb)
      | _ \<Rightarrow> NaN)"

text \<open>The \<open>switch\<close> over the sort key; it has no \<open>default\<close> branch.\<close>

definition sortTasks :: "string \<Rightarrow> task list \<Rightarrow> task list" where
  "sortTasks sortBy filtered =
     (if sortBy = ''updated_at_desc'' then Array_sort cmp_updated_at_desc filtered
      else if sortBy = ''updated_at_asc'' then Array_sort cmp_updated_at_asc filtered
      else if sortBy = ''due_date_asc'' then Array_sort cmp_due_date_asc filtered
      else if sortBy = ''due_date_desc'' then Array_sort cmp_due_date_desc filtered
      else if sortBy = ''priority'' then Array_sort cmp_priority filtered
      else filtered)"

subsection \<open>The pipeline\<close>

definition getFilteredAndSortedTasks :: "env \<Rightarrow> app \<Rightarrow> js_error + task list" where
  "getFilteredAndSortedTasks e a =
     (case searchFilter (searchInput a)
             (categoryFilter (currentCategory a)
                (statusFilter e (currentFilter a) (tasks a))) of
        Inl err \<Rightarrow> Inl err
      | Inr filtered \<Rightarrow> Inr (sortTasks (sortSelect a) filtered))"

section \<open>FrontendLogger\<close>

text \<open>
  The message texts of the source are Chinese; they are given here in English. No
  property below depends on them.
\<close>

definition msg_save_failed :: string where
  "msg_save_failed = ''saving the log to local storage failed:''"

definition msg_load_start :: string where
  "msg_load_start = ''start loading task data''"

definition msg_load_response :: string where
  "msg_load_response = ''task data load response''"

definition msg_bad_format :: string where
  "msg_bad_format = ''the task data returned by the API is not in the expected format''"

definition msg_not_array :: string where
  "msg_not_array = ''tasks data is not an array''"

definition msg_load_failed :: string where
  "msg_load_failed = ''loading tasks failed''"

fun string_of_nat :: "nat \<Rightarrow> string" where
  "string_of_nat n =
     (if n < 10 then [char_of (48 + n)]
      else string_of_nat (n div 10) @ [char_of (48 + n mod 10)])"

declare string_of_nat.simps [simp del]

definition msg_loaded :: "nat \<Rightarrow> string" where
  "msg_loaded n = ''loaded '' @ string_of_nat n @ '' tasks''"

text \<open>\<open>getLogs\<close>: the stored buffer, the empty list when the key is absent.\<close>

definition FrontendLogger_getLogs :: "app \<Rightarrow> log_entry list" where
  "FrontendLogger_getLogs a = (case frontendLogs a of None \<Rightarrow> [] | Some logs \<Rightarrow> logs)"

text \<open>
  \<open>saveToLocalStorage\<close>: read the buffer, push the entry, keep the last 1000 entries
  (\<open>logs.slice(-1000)\<close>) when there are more, write the buffer back. When \<open>setItem\<close>
  throws, the \<open>catch\<close> branch writes a console line and the stored buffer stays as it
  was.
\<close>

definition FrontendLogger_saveToLocalStorage :: "env \<Rightarrow> log_entry \<Rightarrow> app \<Rightarrow> app" where
  "FrontendLogger_saveToLocalStorage e logEntry a =
     (let logs = FrontendLogger_getLogs a @ [logEntry];
          logs' = (if length logs > 1000 then drop (length logs - 1000) logs else logs)
      in if storage_accepts e logs' then a\<lparr>frontendLogs := Some logs'\<rparr>
         else a\<lparr>console := console a @ [(''error'', msg_save_failed)]\<rparr>)"

text \<open>\<open>sendToServer\<close> posts the entry and ignores the response.\<close>

definition FrontendLogger_sendToServer :: "log_entry \<Rightarrow> app \<Rightarrow> app" where
  "FrontendLogger_sendToServer logEntry a = a\<lparr>posted := posted a @ [logEntry]\<rparr>"

text \<open>The console method chosen for a level, and the text of the line.\<close>

definition consoleMethod :: "string \<Rightarrow> string" where
  "consoleMethod lvl =
     (if lvl = ''error'' then ''error'' else if lvl = ''warn'' then ''warn'' else ''log'')"

definition console_text :: "string \<Rightarrow> string \<Rightarrow> string \<Rightarrow> string" where
  "console_text ts lvl msg = ''['' @ ts @ ''] ['' @ lvl @ ''] '' @ msg"

text \<open>
  \<open>log\<close>: build the entry with the current time, print it, save it, and post it to
  the server when its level is \<open>error\<close>.
\<close>

definition FrontendLogger_log :: "env \<Rightarrow> string \<Rightarrow> string \<Rightarrow> err_obj option \<Rightarrow> app \<Rightarrow> app" where
  "FrontendLogger_log e lvl msg err a =
     (let ts = clock e (ticks a);
          logEntry = \<lparr>timestamp = ts, level = lvl, message = msg, error = err\<rparr>;
          a1 = a\<lparr>ticks := Suc (ticks a),
                 console := console a @ [(consoleMethod lvl, console_text ts lvl msg)]\<rparr>;
          a2 = FrontendLogger_saveToLocalStorage e logEntry a1
      in if lvl = ''error'' then FrontendLogger_sendToServer logEntry a2 else a2)"

section \<open>loadTasks\<close>

text \<open>
  The outcome of \<open>axios.get\<close>: rejected with an error, or resolved with a response
  (\<open>None\<close> for a falsy one). \<open>data\<close> is \<open>None\<close> when \<open>response.data\<close> is falsy; otherwise
  its \<open>tasks\<close> property is an array of tasks or a value for which \<open>Array.isArray\<close> is
  false (undefined, a string such as \<open>"not-an-array"\<close>, a number, an object).
\<close>

datatype tasks_prop = NotAnArray | TaskArray "task list"

record response =
  data :: "tasks_prop option"

datatype axios_result = Rejected err_obj | Resolved "response option"

datatype settled = Fulfilled | RejectedWith err_obj

text \<open>The \<open>catch\<close> handler: log at error level, reset the list, throw again.\<close>

definition loadTasks_catch :: "env \<Rightarrow> err_obj \<Rightarrow> app \<Rightarrow> settled \<times> app" where
  "loadTasks_catch e err a =
     (RejectedWith err,
      (FrontendLogger_log e ''error'' msg_load_failed (Some err) a)\<lparr>tasks := []\<rparr>)"

text \<open>
  The \<open>then\<close> handler reads \<open>response.data\<close> for its first log call, which throws a
  TypeError on a falsy response; the exception reaches the \<open>catch\<close> handler. The object
  logged with the response has neither \<open>message\<close> nor \<open>stack\<close>.
\<close>

definition loadTasks :: "env \<Rightarrow> axios_result \<Rightarrow> app \<Rightarrow> settled \<times> app" where
  "loadTasks e res a =
     (let a1 = FrontendLogger_log e ''info'' msg_load_start None a
      in case res of
           Rejected err \<Rightarrow> loadTasks_catch e err a1
         | Resolved None \<Rightarrow> loadTasks_catch e (engine_TypeError e) a1
         | Resolved (Some response) \<Rightarrow>
             (let a2 = FrontendLogger_log e ''info'' msg_load_response
                         (Some \<lparr>err_message = None, err_stack = None\<rparr>) a1
              in case data response of
                   Some (TaskArray ts) \<Rightarrow>
                     (Fulfilled,
                      (FrontendLogger_log e ''info'' (msg_loaded (length ts)) None a2)
                        \<lparr>tasks := ts\<rparr>)
                 | _ \<Rightarrow>
                     (Fulfilled,
                      (FrontendLogger_log e ''warn'' msg_bad_format
                         (Some \<lparr>err_message = Some msg_not_array,
                                err_stack = Some (engine_stack e)\<rparr>) a2)
                        \<lparr>tasks := []\<rparr>)))"

section \<open>Auxiliary definitions for the properties\<close>

text \<open>
  The order that the comparator of \<open>due_date_asc\<close> induces on tasks whose due dates
  are valid, as a key: tasks with a due date first, by time value, then the tasks
  without one. Pairs are ordered lexicographically.
\<close>

definition due_key :: "task \<Rightarrow> nat \<times> int" where
  "due_key t =
     (case due_date t of
        None \<Rightarrow> (1, 0)
      | Some InvalidDate \<Rightarrow> (0, 0)
      | Some (TimeValue v) \<Rightarrow> (0, v))"

text \<open>
  Follows the spec's words, not the code: the rank of a priority with the fallback that
  the specification asks for, an unrecognised priority ranking as \<open>medium\<close>.
\<close>

definition rank_with_fallback :: "string \<Rightarrow> int" where
  "rank_with_fallback p = (case priorityOrder p of Some r \<Rightarrow> r | None \<Rightarrow> 1)"

text \<open>
  Follows the spec's words, not the code: \<open>needle\<close> is a case-insensitive substring of
  \<open>hay\<close> when the segment of \<open>hay\<close> at some position equals \<open>needle\<close> up to the case of
  its letters.
\<close>

definition ci_substring :: "string \<Rightarrow> string \<Rightarrow> bool" where
  "ci_substring needle hay =
     list_ex
       (\<lambda>i. map toLowerCase_char (take (length needle) (drop i hay))
              = map toLowerCase_char needle)
       [0..<Suc (length hay)]"

definition text_matches :: "string \<Rightarrow> jsval \<Rightarrow> bool" where
  "text_matches searchText v = (case v of JStr s \<Rightarrow> ci_substring searchText s | _ \<Rightarrow> False)"

text \<open>
  Follows the spec's words: the search text is a case-insensitive substring of the
  title, or of the description if present, or of any tag.
\<close>

definition search_spec :: "string \<Rightarrow> task \<Rightarrow> bool" where
  "search_spec searchText t =
     (text_matches searchText (title t)
      \<or> text_matches searchText (description t)
      \<or> (case tags t of
            JArr vs \<Rightarrow> (\<exists>tag\<in>set vs. text_matches searchText tag)
          | _ \<Rightarrow> False))"

text \<open>
  A well-formed task, after the data model: the title is text, the description is
  text or absent (undefined or null), the tags are a sequence of text or absent. The due
  date is optional by its type.
\<close>

fun is_JStr :: "jsval \<Rightarrow> bool" where
  "is_JStr (JStr s) = True"
| "is_JStr _ = False"

definition optional_text :: "jsval \<Rightarrow> bool" where
  "optional_text v = (v = JUndefined \<or> v = JNull \<or> is_JStr v)"

definition optional_tags :: "jsval \<Rightarrow> bool" where
  "optional_tags v =
     (case v of
        JUndefined \<Rightarrow> True
      | JNull \<Rightarrow> True
      | JArr vs \<Rightarrow> list_all is_JStr vs
      | _ \<Rightarrow> False)"

definition well_formed :: "task \<Rightarrow> bool" where
  "well_formed t =
     (is_JStr (title t) \<and> optional_text (description t) \<and> optional_tags (tags t))"

subsection \<open>Example inputs\<close>

definition env0 :: env where
  "env0 = \<lparr>clock = string_of_nat, today = 1000, tomorrow = 2000,
            storage_accepts = (\<lambda>logs. True), engine_stack = ''Error'',
            engine_TypeError = \<lparr>err_message = Some ''TypeError'', err_stack = None\<rparr>\<rparr>"

definition app0 :: app where
  "app0 = \<lparr>tasks = [], currentFilter = ''all'', currentCategory = ''all'', searchInput = [],
            sortSelect = ''updated_at_desc'', frontendLogs = None, console = [], posted = [],
            ticks = 0\<rparr>"

definition task0 :: task where
  "task0 = \<lparr>task_id = ''t0'', title = JStr ''Write report'', category_id = None,
             priority = ''medium'', due_date = None, status = ''todo'',
             description = JNull, tags = JUndefined, updated_at = TimeValue 0\<rparr>"

definition with_priority :: "string \<Rightarrow> task" where
  "with_priority p = task0\<lparr>priority := p\<rparr>"

definition due_at :: "int \<Rightarrow> task" where
  "due_at v = task0\<lparr>due_date := Some (TimeValue v)\<rparr>"

definition tasks_due :: "task list" where
  "tasks_due = [task0, due_at 5, due_at 3]"

definition tagged_task :: task where
  "tagged_task = task0\<lparr>title := JStr ''Buy milk'', description := JStr ''from the shop'',
                        tags := JArr [JStr ''Errands'', JStr ''home'']\<rparr>"

definition first_entry :: log_entry where
  "first_entry = \<lparr>timestamp = ''2024-01-01T00:00:00.000Z'', level = ''info'',
                   message = ''first'', error = None\<rparr>"

definition later_entry :: log_entry where
  "later_entry = \<lparr>timestamp = ''2024-01-01T00:00:01.000Z'', level = ''info'',
                   message = ''later'', error = None\<rparr>"

section \<open>Properties of the sort\<close>

lemma insert_sorted_insort_key:
  "\<forall>y\<in>set ys. (SortCompare c x y \<le> 0) = (key x \<le> key y) \<Longrightarrow>
   insert_sorted c x ys = insort_key key x ys"
  by (induction ys) auto

text \<open>
  When the comparator agrees with a key into a linear order, \<open>Array_sort\<close> is the
  stable sort by that key.
\<close>

lemma Array_sort_sort_key:
  "\<forall>x\<in>set xs. \<forall>y\<in>set xs. (SortCompare c x y \<le> 0) = (key x \<le> key y) \<Longrightarrow>
   Array_sort c xs = sort_key key xs"
proof (induction xs)
  case Nil
  show ?case by (simp add: Array_sort_def)
next
  case (Cons x xs)
  have ih: "Array_sort c xs = sort_key key xs" using Cons by simp
  have "Array_sort c (x # xs) = insert_sorted c x (Array_sort c xs)"
    by (simp add: Array_sort_def)
  also have "\<dots> = insert_sorted c x (sort_key key xs)" by (simp only: ih)
  also have "\<dots> = insort_key key x (sort_key key xs)"
    using Cons.prems by (intro insert_sorted_insort_key) simp
  finally show ?case by simp
qed

lemma mset_insert_sorted: "mset (insert_sorted c x ys) = add_mset x (mset ys)"
  by (induction ys) auto

lemma mset_Array_sort: "mset (Array_sort c xs) = mset xs"
  by (induction xs) (simp_all add: Array_sort_def mset_insert_sorted)

lemma mset_sortTasks: "mset (sortTasks k xs) = mset xs"
  by (simp add: sortTasks_def mset_Array_sort)

lemma set_sortTasks: "set (sortTasks k xs) = set xs"
  using mset_sortTasks [of k xs] by (metis set_mset_mset)

subsection \<open>Sorting by priority\<close>

lemma cmp_priority_key:
  assumes "priority x \<in> {''high'', ''medium'', ''low''}"
      and "priority y \<in> {''high'', ''medium'', ''low''}"
  shows "(SortCompare cmp_priority x y \<le> 0)
         = (rank_with_fallback (priority x) \<le> rank_with_fallback (priority y))"
  using assms
  by (auto simp: SortCompare_def cmp_priority_def rank_with_fallback_def priorityOrder_def)

text \<open>
  On tasks whose priorities are all recognised, the sort by \<open>priority\<close> is the stable
  sort by rank, with \<open>high\<close> before \<open>medium\<close> before \<open>low\<close>.
\<close>

lemma priority_sort_recognised:
  assumes "\<forall>t\<in>set xs. priority t \<in> {''high'', ''medium'', ''low''}"
  shows "sortTasks ''priority'' xs = sort_key (\<lambda>t. rank_with_fallback (priority t)) xs"
proof -
  have "Array_sort cmp_priority xs = sort_key (\<lambda>t. rank_with_fallback (priority t)) xs"
    using assms by (intro Array_sort_sort_key) (simp add: cmp_priority_key)
  then show ?thesis by (simp add: sortTasks_def)
qed

lemma priority_sort_example:
  "map priority (sortTasks ''priority''
       (map with_priority [''low'', ''high'', ''medium'', ''high'', ''low'', ''medium'']))
   = [''high'', ''high'', ''medium'', ''medium'', ''low'', ''low'']"
  by (simp add: sortTasks_def Array_sort_def SortCompare_def cmp_priority_def priorityOrder_def
      with_priority_def task0_def)

text \<open>
  Claim C1. Sorting by \<open>priority\<close> is to order tasks by rank, an unrecognised priority
  ranking as \<open>medium\<close>. The code gives an unrecognised priority no rank: its comparison
  with any task is NaN, which the sort takes as equal. On the list of a task of priority
  \<open>urgent\<close> followed by one of priority \<open>high\<close> the code returns the list as it is,
  which is not in the order of the ranks with the fallback: there \<open>high\<close> comes first,
  as it does for \<open>medium\<close> against \<open>high\<close>.
\<close>

theorem priority_sort_unrecognised:
  "getFilteredAndSortedTasks env0
      (app0\<lparr>tasks := [with_priority ''urgent'', with_priority ''high''],
            sortSelect := ''priority''\<rparr>)
     = Inr [with_priority ''urgent'', with_priority ''high'']
   \<and> cmp_priority (with_priority ''urgent'') (with_priority ''high'') = NaN
   \<and> cmp_priority (with_priority ''medium'') (with_priority ''high'') = Num 1
   \<and> \<not> sorted (map (\<lambda>t. rank_with_fallback (priority t))
                [with_priority ''urgent'', with_priority ''high''])"
  by (simp add: getFilteredAndSortedTasks_def statusFilter_def categoryFilter_def
        searchFilter_def trim_def toLowerCase_def sortTasks_def Array_sort_def SortCompare_def
        cmp_priority_def priorityOrder_def rank_with_fallback_def app0_def with_priority_def
        task0_def)

subsection \<open>Sorting by due date, ascending\<close>

lemma cmp_due_date_asc_key:
  assumes "due_date x \<noteq> Some InvalidDate" and "due_date y \<noteq> Some InvalidDate"
  shows "(SortCompare cmp_due_date_asc x y \<le> 0) = (due_key x \<le> due_key y)"
proof (cases "due_date x")
  case None
  then show ?thesis
    by (cases "due_date y")
      (simp_all add: SortCompare_def cmp_due_date_asc_def due_key_def less_eq_prod_def
         split: jsdate.splits)
next
  case (Some dx)
  with assms obtain v where dx: "due_date x = Some (TimeValue v)" by (cases dx) auto
  show ?thesis
  proof (cases "due_date y")
    case None
    with dx show ?thesis
      by (simp add: SortCompare_def cmp_due_date_asc_def due_key_def less_eq_prod_def)
  next
    case (Some dy)
    with assms obtain w where "due_date y = Some (TimeValue w)" by (cases dy) auto
    with dx show ?thesis
      by (simp add: SortCompare_def cmp_due_date_asc_def due_key_def less_eq_prod_def)
  qed
qed

lemma sortTasks_due_date_asc:
  assumes "\<forall>t\<in>set xs. due_date t \<noteq> Some InvalidDate"
  shows "sortTasks ''due_date_asc'' xs = sort_key due_key xs"
proof -
  have "Array_sort cmp_due_date_asc xs = sort_key due_key xs"
    using assms by (intro Array_sort_sort_key) (simp add: cmp_due_date_asc_key)
  then show ?thesis by (simp add: sortTasks_def)
qed

lemma sorted_due_key_nulls_last:
  assumes "sorted (map due_key r)" "i < length r" "j < length r"
      and "due_date (r ! i) \<noteq> None" "due_date (r ! j) = None"
  shows "i < j"
proof (rule ccontr)
  assume "\<not> i < j"
  then have "j \<le> i" by simp
  with assms(1,2) have "due_key (r ! j) \<le> due_key (r ! i)"
    using sorted_nth_mono [of "map due_key r" j i] by simp
  with assms(4,5) show False
    by (auto simp: due_key_def less_eq_prod_def split: option.splits jsdate.splits)
qed

lemma sorted_due_key_ascending:
  assumes "sorted (map due_key r)" "i < j" "j < length r"
      and "due_date (r ! i) = Some (TimeValue v)" "due_date (r ! j) = Some (TimeValue w)"
  shows "v \<le> w"
proof -
  from assms(1,2,3) have "due_key (r ! i) \<le> due_key (r ! j)"
    using sorted_nth_mono [of "map due_key r" i j] by simp
  with assms(4,5) show ?thesis by (simp add: due_key_def less_eq_prod_def)
qed

text \<open>
  Claim C3. For every task list whose due dates, where set, are valid dates, sorting by
  \<open>due_date_asc\<close> keeps exactly the tasks of the input, places every task without a
  due date after every task with one, whatever their order in the input, and orders
  the tasks with a due date by ascending time value.
\<close>

theorem due_date_asc_null_last:
  assumes valid: "\<forall>t\<in>set xs. due_date t \<noteq> Some InvalidDate"
      and r: "r = sortTasks ''due_date_asc'' xs"
  shows "mset r = mset xs
       \<and> (\<forall>i j. i < length r \<and> j < length r
              \<and> due_date (r ! i) \<noteq> None \<and> due_date (r ! j) = None \<longrightarrow> i < j)
       \<and> (\<forall>i j v w. i < j \<and> j < length r \<and> due_date (r ! i) = Some (TimeValue v)
              \<and> due_date (r ! j) = Some (TimeValue w) \<longrightarrow> v \<le> w)"
proof -
  have rs: "r = sort_key due_key xs"
    using r sortTasks_due_date_asc [OF valid] by simp
  have srt: "sorted (map due_key r)" by (simp add: rs)
  have a: "mset r = mset xs" by (simp add: rs)
  from a sorted_due_key_nulls_last [OF srt] sorted_due_key_ascending [OF srt]
  show ?thesis by blast
qed

theorem due_date_asc_null_last_witness:
  "Some InvalidDate \<notin> set (map due_date tasks_due)
   \<and> map due_date tasks_due = [None, Some (TimeValue 5), Some (TimeValue 3)]
   \<and> map due_date (sortTasks ''due_date_asc'' tasks_due)
       = [Some (TimeValue 3), Some (TimeValue 5), None]
   \<and> mset (sortTasks ''due_date_asc'' tasks_due) = mset tasks_due"
proof -
  have h: "\<forall>t\<in>set tasks_due. due_date t \<noteq> Some InvalidDate"
    by (simp add: tasks_due_def due_at_def task0_def)
  have v: "map due_date (sortTasks ''due_date_asc'' tasks_due)
       = [Some (TimeValue 3), Some (TimeValue 5), None]"
    by (simp add: sortTasks_def Array_sort_def SortCompare_def cmp_due_date_asc_def
        tasks_due_def due_at_def task0_def)
  have m: "mset (sortTasks ''due_date_asc'' tasks_due) = mset tasks_due"
    using due_date_asc_null_last [OF h refl] by blast
  from h v m show ?thesis by (simp add: tasks_due_def due_at_def task0_def)
qed

section \<open>Properties of the filters\<close>

lemma statusFilter_subset: "set (statusFilter e f xs) \<subseteq> set xs"
  by (auto simp: statusFilter_def)

lemma categoryFilter_subset: "set (categoryFilter c xs) \<subseteq> set xs"
  by (auto simp: categoryFilter_def)

lemma filter_err_subset: "filter_err p xs = Inr ys \<Longrightarrow> set ys \<subseteq> set xs"
  by (induction xs arbitrary: ys) (auto split: sum.splits if_splits)

lemma filter_err_mem: "filter_err p xs = Inr ys \<Longrightarrow> x \<in> set ys \<Longrightarrow> p x = Inr True"
  by (induction xs arbitrary: ys) (auto split: sum.splits if_splits)

lemma filter_err_pure:
  "\<forall>x\<in>set xs. p x = Inr (q x) \<Longrightarrow> filter_err p xs = Inr (filter q xs)"
  by (induction xs) auto

lemma some_err_pure:
  "\<forall>x\<in>set xs. p x = Inr (q x) \<Longrightarrow> some_err p xs = Inr (\<exists>x\<in>set xs. q x)"
  by (induction xs) (auto split: bool.splits)

lemma trim_empty: "trim (toLowerCase []) = []"
  by (simp add: trim_def toLowerCase_def)

lemma searchFilter_empty: "trim (toLowerCase input) = [] \<Longrightarrow> searchFilter input xs = Inr xs"
  by (simp add: searchFilter_def)

lemma searchFilter_subset: "searchFilter input xs = Inr ys \<Longrightarrow> set ys \<subseteq> set xs"
  by (auto simp: searchFilter_def Let_def dest: filter_err_subset split: if_splits)

lemma pipeline_stages:
  assumes "getFilteredAndSortedTasks e a = Inr r"
  obtains ys where
    "searchFilter (searchInput a)
       (categoryFilter (currentCategory a) (statusFilter e (currentFilter a) (tasks a))) = Inr ys"
    and "r = sortTasks (sortSelect a) ys"
  using assms by (auto simp: getFilteredAndSortedTasks_def split: sum.splits)

lemma pipeline_subset:
  assumes "getFilteredAndSortedTasks e a = Inr r"
  shows "set r \<subseteq> set (statusFilter e (currentFilter a) (tasks a))"
proof -
  from assms obtain ys where
    ys: "searchFilter (searchInput a)
           (categoryFilter (currentCategory a) (statusFilter e (currentFilter a) (tasks a)))
         = Inr ys"
    and r: "r = sortTasks (sortSelect a) ys"
    by (rule pipeline_stages)
  have "set r = set ys" using r by (simp add: set_sortTasks)
  with searchFilter_subset [OF ys] categoryFilter_subset show ?thesis by blast
qed

lemma pipeline_no_search:
  assumes "currentCategory a = ''all''" "trim (toLowerCase (searchInput a)) = []"
  shows "getFilteredAndSortedTasks e a
         = Inr (sortTasks (sortSelect a) (statusFilter e (currentFilter a) (tasks a)))"
  using assms by (simp add: getFilteredAndSortedTasks_def categoryFilter_def searchFilter_empty)

subsection \<open>Unrecognised sort keys\<close>

text \<open>
  Claim C10. For every sort key that is none of \<open>updated_at_desc\<close>, \<open>updated_at_asc\<close>,
  \<open>due_date_asc\<close>, \<open>due_date_desc\<close> and \<open>priority\<close>, the sort step is the identity, and the
  pipeline returns the filtered list in the order it had after filtering.
\<close>

theorem unknown_sort_key_identity:
  assumes "k \<notin> {''updated_at_desc'', ''updated_at_asc'', ''due_date_asc'', ''due_date_desc'',
                 ''priority''}"
      and "sortSelect a = k"
  shows "sortTasks k xs = xs
       \<and> getFilteredAndSortedTasks e a
           = searchFilter (searchInput a)
               (categoryFilter (currentCategory a) (statusFilter e (currentFilter a) (tasks a)))"
  using assms by (auto simp: sortTasks_def getFilteredAndSortedTasks_def split: sum.splits)

theorem unknown_sort_key_identity_witness:
  "''manual'' \<notin> {''updated_at_desc'', ''updated_at_asc'', ''due_date_asc'', ''due_date_desc'',
                  ''priority''}
   \<and> sortSelect (app0\<lparr>tasks := [with_priority ''low'', with_priority ''high''],
                       sortSelect := ''manual''\<rparr>) = ''manual''
   \<and> sortTasks ''manual'' [with_priority ''low'', with_priority ''high'']
       = [with_priority ''low'', with_priority ''high'']
   \<and> getFilteredAndSortedTasks env0
        (app0\<lparr>tasks := [with_priority ''low'', with_priority ''high''], sortSelect := ''manual''\<rparr>)
       = Inr [with_priority ''low'', with_priority ''high'']"
proof -
  let ?a = "app0\<lparr>tasks := [with_priority ''low'', with_priority ''high''],
                 sortSelect := ''manual''\<rparr>"
  have k: "''manual'' \<notin> {''updated_at_desc'', ''updated_at_asc'', ''due_date_asc'',
                          ''due_date_desc'', ''priority''}" by simp
  have s: "sortSelect ?a = ''manual''" by simp
  have f: "searchFilter (searchInput ?a)
             (categoryFilter (currentCategory ?a) (statusFilter env0 (currentFilter ?a) (tasks ?a)))
           = Inr [with_priority ''low'', with_priority ''high'']"
    by (simp add: app0_def statusFilter_def categoryFilter_def searchFilter_def trim_empty)
  from unknown_sort_key_identity [OF k s, of "[with_priority ''low'', with_priority ''high'']" env0]
    k s f
  show ?thesis by simp
qed

subsection \<open>The status filter \<open>all\<close>\<close>

text \<open>
  Claim C8, as stated: with the status filter \<open>all\<close>, the category filter \<open>all\<close> and an
  empty search text the pipeline returns the task list unchanged and in its input order.
  It does not when the sort key reorders the list: sorted by \<open>priority\<close>, a task of
  priority \<open>low\<close> followed by one of priority \<open>high\<close> comes back in the other order.
\<close>

theorem all_filter_sorted_counterexample:
  "currentFilter (app0\<lparr>tasks := [with_priority ''low'', with_priority ''high''],
                        sortSelect := ''priority''\<rparr>) = ''all''
   \<and> currentCategory (app0\<lparr>tasks := [with_priority ''low'', with_priority ''high''],
                            sortSelect := ''priority''\<rparr>) = ''all''
   \<and> searchInput (app0\<lparr>tasks := [with_priority ''low'', with_priority ''high''],
                        sortSelect := ''priority''\<rparr>) = []
   \<and> getFilteredAndSortedTasks env0
        (app0\<lparr>tasks := [with_priority ''low'', with_priority ''high''],
              sortSelect := ''priority''\<rparr>)
      = Inr [with_priority ''high'', with_priority ''low'']
   \<and> getFilteredAndSortedTasks env0
        (app0\<lparr>tasks := [with_priority ''low'', with_priority ''high''],
              sortSelect := ''priority''\<rparr>)
      \<noteq> Inr [with_priority ''low'', with_priority ''high'']"
  by (simp add: getFilteredAndSortedTasks_def statusFilter_def categoryFilter_def
        searchFilter_def trim_def toLowerCase_def sortTasks_def Array_sort_def SortCompare_def
        cmp_priority_def priorityOrder_def app0_def with_priority_def task0_def)

text \<open>
  Claim C8, amended. With the status filter \<open>all\<close>, the category filter \<open>all\<close> and a
  search text that is empty after trimming, no task is dropped or added: the pipeline
  returns the task list sorted by the selected sort key, a permutation of the input, and
  returns it unchanged and in its input order when the sort key is none of the five
  recognised keys.
\<close>

theorem all_filter_keeps_all:
  assumes "currentFilter a = ''all''" "currentCategory a = ''all''"
      and "trim (toLowerCase (searchInput a)) = []"
  shows "getFilteredAndSortedTasks e a = Inr (sortTasks (sortSelect a) (tasks a))
       \<and> mset (sortTasks (sortSelect a) (tasks a)) = mset (tasks a)
       \<and> (sortSelect a \<notin> {''updated_at_desc'', ''updated_at_asc'', ''due_date_asc'',
                            ''due_date_desc'', ''priority''}
            \<longrightarrow> getFilteredAndSortedTasks e a = Inr (tasks a))"
proof -
  have 1: "getFilteredAndSortedTasks e a = Inr (sortTasks (sortSelect a) (tasks a))"
    using pipeline_no_search [OF assms(2,3), of e] assms(1) by (simp add: statusFilter_def)
  have 2: "mset (sortTasks (sortSelect a) (tasks a)) = mset (tasks a)"
    by (rule mset_sortTasks)
  have 3: "sortTasks (sortSelect a) (tasks a) = tasks a"
    if "sortSelect a \<notin> {''updated_at_desc'', ''updated_at_asc'', ''due_date_asc'',
                          ''due_date_desc'', ''priority''}"
    using that by (simp add: sortTasks_def)
  from 1 2 3 show ?thesis by simp
qed

theorem all_filter_keeps_all_witness:
  "currentFilter (app0\<lparr>tasks := [with_priority ''low'', with_priority ''high''],
                        sortSelect := ''priority''\<rparr>) = ''all''
   \<and> currentCategory (app0\<lparr>tasks := [with_priority ''low'', with_priority ''high''],
                            sortSelect := ''priority''\<rparr>) = ''all''
   \<and> trim (toLowerCase (searchInput (app0\<lparr>tasks := [with_priority ''low'', with_priority ''high''],
                        sortSelect := ''priority''\<rparr>))) = []
   \<and> getFilteredAndSortedTasks env0
        (app0\<lparr>tasks := [with_priority ''low'', with_priority ''high''],
              sortSelect := ''priority''\<rparr>)
      = Inr (sortTasks ''priority'' [with_priority ''low'', with_priority ''high''])
   \<and> sortTasks ''priority'' [with_priority ''low'', with_priority ''high'']
      = [with_priority ''high'', with_priority ''low'']
   \<and> mset (sortTasks ''priority'' [with_priority ''low'', with_priority ''high''])
      = mset [with_priority ''low'', with_priority ''high'']"
proof -
  let ?a = "app0\<lparr>tasks := [with_priority ''low'', with_priority ''high''],
                 sortSelect := ''priority''\<rparr>"
  have h: "currentFilter ?a = ''all''" "currentCategory ?a = ''all''"
    "trim (toLowerCase (searchInput ?a)) = []"
    by (simp_all add: app0_def trim_empty)
  have v: "sortTasks ''priority'' [with_priority ''low'', with_priority ''high'']
      = [with_priority ''high'', with_priority ''low'']"
    by (simp add: sortTasks_def Array_sort_def SortCompare_def cmp_priority_def priorityOrder_def
        with_priority_def task0_def)
  from all_filter_keeps_all [OF h, of env0] h v show ?thesis by simp
qed

subsection \<open>The tiers \<open>overdue\<close> and \<open>due_soon\<close>\<close>

lemma is_due_soon_iff:
  "is_due_soon e t
   = (\<exists>v. due_date t = Some (TimeValue v) \<and> today e \<le> v \<and> v < tomorrow e
          \<and> status t \<noteq> ''completed'')"
  by (cases "due_date t"; cases "the (due_date t)") (auto simp: is_due_soon_def)

text \<open>
  Claim C4. Every task whose due date is set and strictly before the start of the
  current day and whose status is not \<open>completed\<close> is kept by the status filter
  \<open>overdue\<close> and is not kept by the status filter \<open>due_soon\<close>; no task is in both tiers.
  At the level of the pipeline: under \<open>overdue\<close>, with no category and no search text
  selected, the task is in the result, and under \<open>due_soon\<close> it is in no result.
\<close>

theorem overdue_not_due_soon:
  assumes "t \<in> set (tasks a)" "due_date t = Some (TimeValue v)" "v < today e"
      and "status t \<noteq> ''completed''"
  shows "t \<in> set (statusFilter e ''overdue'' (tasks a))
       \<and> t \<notin> set (statusFilter e ''due_soon'' (tasks a))
       \<and> (\<forall>u. \<not> (is_overdue e u \<and> is_due_soon e u))
       \<and> (currentFilter a = ''overdue'' \<and> currentCategory a = ''all''
            \<and> trim (toLowerCase (searchInput a)) = []
          \<longrightarrow> (\<exists>r. getFilteredAndSortedTasks e a = Inr r \<and> t \<in> set r))
       \<and> (currentFilter a = ''due_soon''
          \<longrightarrow> (\<forall>r. getFilteredAndSortedTasks e a = Inr r \<longrightarrow> t \<notin> set r))"
proof -
  have o: "is_overdue e t" using assms by (simp add: is_overdue_def)
  have d: "\<not> is_due_soon e t" using assms by (simp add: is_due_soon_def)
  have 1: "t \<in> set (statusFilter e ''overdue'' (tasks a))"
    using assms(1) o by (simp add: statusFilter_def)
  have 2: "t \<notin> set (statusFilter e ''due_soon'' (tasks a))"
    using d by (simp add: statusFilter_def)
  have 3: "\<not> (is_overdue e u \<and> is_due_soon e u)" for u
    by (cases "due_date u"; cases "the (due_date u)")
      (auto simp: is_overdue_def is_due_soon_def)
  have 4: "\<exists>r. getFilteredAndSortedTasks e a = Inr r \<and> t \<in> set r"
    if "currentFilter a = ''overdue''" "currentCategory a = ''all''"
      "trim (toLowerCase (searchInput a)) = []"
    using pipeline_no_search [OF that(2,3), of e] 1 that(1) by (simp add: set_sortTasks)
  have 5: "t \<notin> set r"
    if "currentFilter a = ''due_soon''" "getFilteredAndSortedTasks e a = Inr r" for r
    using pipeline_subset [OF that(2)] 2 that(1) by auto
  from 1 2 3 4 5 show ?thesis by blast
qed

theorem overdue_not_due_soon_witness:
  "due_at 500 \<in> set [task0, due_at 500, due_at 1500]
   \<and> due_date (due_at 500) = Some (TimeValue 500) \<and> 500 < today env0
   \<and> status (due_at 500) \<noteq> ''completed''
   \<and> getFilteredAndSortedTasks env0
        (app0\<lparr>tasks := [task0, due_at 500, due_at 1500], currentFilter := ''overdue''\<rparr>)
       = Inr [due_at 500]
   \<and> getFilteredAndSortedTasks env0
        (app0\<lparr>tasks := [task0, due_at 500, due_at 1500], currentFilter := ''due_soon''\<rparr>)
       = Inr [due_at 1500]
   \<and> due_at 500 \<in> set (statusFilter env0 ''overdue'' [task0, due_at 500, due_at 1500])
   \<and> due_at 500 \<notin> set (statusFilter env0 ''due_soon'' [task0, due_at 500, due_at 1500])"
proof -
  let ?ts = "[task0, due_at 500, due_at 1500]"
  let ?a = "app0\<lparr>tasks := ?ts, currentFilter := ''overdue''\<rparr>"
  have h: "due_at 500 \<in> set (tasks ?a)" "due_date (due_at 500) = Some (TimeValue 500)"
    "500 < today env0" "status (due_at 500) \<noteq> ''completed''"
    by (simp_all add: due_at_def task0_def env0_def)
  have s: "due_at 500 \<in> set (statusFilter env0 ''overdue'' ?ts)
         \<and> due_at 500 \<notin> set (statusFilter env0 ''due_soon'' ?ts)"
    using overdue_not_due_soon [OF h] by simp
  have r1: "getFilteredAndSortedTasks env0 ?a = Inr [due_at 500]"
    by (simp add: getFilteredAndSortedTasks_def statusFilter_def categoryFilter_def
        searchFilter_def trim_empty sortTasks_def Array_sort_def is_overdue_def app0_def
        env0_def due_at_def task0_def)
  have r2: "getFilteredAndSortedTasks env0 (app0\<lparr>tasks := ?ts, currentFilter := ''due_soon''\<rparr>)
            = Inr [due_at 1500]"
    by (simp add: getFilteredAndSortedTasks_def statusFilter_def categoryFilter_def
        searchFilter_def trim_empty sortTasks_def Array_sort_def is_due_soon_def app0_def
        env0_def due_at_def task0_def)
  from h s r1 r2 show ?thesis by simp
qed

text \<open>
  Claim C5. The status filter \<open>due_soon\<close> keeps exactly the tasks whose due date lies
  between the start of today, inclusive, and the start of the next day, exclusive, and
  whose status is not \<open>completed\<close>. A task that is not completed and whose due date is
  exactly the start of today is kept by \<open>due_soon\<close> and not by \<open>overdue\<close>, the start of
  the next day being after the start of today.
\<close>

theorem due_soon_today_boundary:
  "statusFilter e ''due_soon'' xs
     = filter (\<lambda>t. \<exists>v. due_date t = Some (TimeValue v) \<and> today e \<le> v \<and> v < tomorrow e
                     \<and> status t \<noteq> ''completed'') xs
   \<and> (today e < tomorrow e \<and> t \<in> set xs \<and> due_date t = Some (TimeValue (today e))
        \<and> status t \<noteq> ''completed''
      \<longrightarrow> t \<in> set (statusFilter e ''due_soon'' xs) \<and> t \<notin> set (statusFilter e ''overdue'' xs))"
proof -
  have a: "statusFilter e ''due_soon'' xs
     = filter (\<lambda>t. \<exists>v. due_date t = Some (TimeValue v) \<and> today e \<le> v \<and> v < tomorrow e
                     \<and> status t \<noteq> ''completed'') xs"
    by (simp add: statusFilter_def is_due_soon_iff [abs_def])
  have b: "t \<in> set (statusFilter e ''due_soon'' xs) \<and> t \<notin> set (statusFilter e ''overdue'' xs)"
    if "today e < tomorrow e" "t \<in> set xs" "due_date t = Some (TimeValue (today e))"
      "status t \<noteq> ''completed''"
    using that by (simp add: statusFilter_def is_due_soon_def is_overdue_def)
  from a b show ?thesis by blast
qed

theorem due_soon_today_boundary_witness:
  "today env0 < tomorrow env0
   \<and> due_at 1000 \<in> set [due_at 999, due_at 1000, due_at 1999, due_at 2000, task0]
   \<and> due_date (due_at 1000) = Some (TimeValue (today env0))
   \<and> status (due_at 1000) \<noteq> ''completed''
   \<and> statusFilter env0 ''due_soon'' [due_at 999, due_at 1000, due_at 1999, due_at 2000, task0]
       = [due_at 1000, due_at 1999]
   \<and> statusFilter env0 ''overdue'' [due_at 999, due_at 1000, due_at 1999, due_at 2000, task0]
       = [due_at 999]
   \<and> due_at 1000 \<notin> set (statusFilter env0 ''overdue''
                          [due_at 999, due_at 1000, due_at 1999, due_at 2000, task0])"
proof -
  let ?ts = "[due_at 999, due_at 1000, due_at 1999, due_at 2000, task0]"
  have h: "today env0 < tomorrow env0" "due_at 1000 \<in> set ?ts"
    "due_date (due_at 1000) = Some (TimeValue (today env0))"
    "status (due_at 1000) \<noteq> ''completed''"
    by (simp_all add: due_at_def task0_def env0_def)
  have n: "due_at 1000 \<notin> set (statusFilter env0 ''overdue'' ?ts)"
    using due_soon_today_boundary [of env0 ?ts "due_at 1000"] h by blast
  have s: "statusFilter env0 ''due_soon'' ?ts = [due_at 1000, due_at 1999]"
    by (simp add: statusFilter_def is_due_soon_def env0_def due_at_def task0_def)
  have o: "statusFilter env0 ''overdue'' ?ts = [due_at 999]"
    by (simp add: statusFilter_def is_overdue_def env0_def due_at_def task0_def)
  from h n s o show ?thesis by simp
qed

section \<open>Properties of the search filter\<close>

lemma startsWith_take: "startsWith s sub = (take (length sub) s = sub)"
  by (induction s sub rule: startsWith.induct) auto

lemma String_includes_iff:
  "String_includes s sub = (\<exists>i\<in>{0..length s}. take (length sub) (drop i s) = sub)"
proof (induction s)
  case Nil
  show ?case by auto
next
  case (Cons x xs)
  have "(\<exists>i\<in>{0..length (x # xs)}. take (length sub) (drop i (x # xs)) = sub)
        = (take (length sub) (x # xs) = sub
           \<or> (\<exists>i\<in>{0..length xs}. take (length sub) (drop i xs) = sub))"
    (is "?L = (?A \<or> ?B)")
  proof
    assume ?L
    then obtain i where i: "i \<le> length (x # xs)" "take (length sub) (drop i (x # xs)) = sub"
      by auto
    show "?A \<or> ?B"
    proof (cases i)
      case 0
      with i show ?thesis by simp
    next
      case (Suc k)
      with i have "k \<in> {0..length xs}" "take (length sub) (drop k xs) = sub" by auto
      then show ?thesis by blast
    qed
  next
    assume "?A \<or> ?B"
    then show ?L
    proof
      assume ?A
      then have "take (length sub) (drop 0 (x # xs)) = sub" by simp
      then show ?L by (intro bexI [of _ 0]) auto
    next
      assume ?B
      then obtain k where "k \<le> length xs" "take (length sub) (drop k xs) = sub" by auto
      then have "take (length sub) (drop (Suc k) (x # xs)) = sub"
        "Suc k \<in> {0..length (x # xs)}" by auto
      then show ?L by blast
    qed
  qed
  with Cons show ?case by (simp add: startsWith_take del: startsWith.simps)
qed

lemma toLowerCase_char_idem: "toLowerCase_char (toLowerCase_char c) = toLowerCase_char c"
  by (simp add: toLowerCase_char_def Let_def)

lemma set_trim: "set (trim s) \<subseteq> set s"
proof -
  have "set (trim s) \<subseteq> set (rev (dropWhile isWhiteSpace s))"
    unfolding trim_def using set_dropWhileD by fastforce
  also have "\<dots> \<subseteq> set s" using set_dropWhileD by fastforce
  finally show ?thesis .
qed

text \<open>The search term is in lower case already.\<close>

lemma searchTerm_lower:
  "map toLowerCase_char (trim (toLowerCase input)) = trim (toLowerCase input)"
proof -
  have "\<forall>c\<in>set (trim (toLowerCase input)). toLowerCase_char c = c"
    using set_trim [of "toLowerCase input"] by (auto simp: toLowerCase_def toLowerCase_char_idem)
  then show ?thesis by (simp add: map_idI)
qed

lemma list_ex_upt: "list_ex P [0..<Suc n] = (\<exists>i\<in>{0..n}. P i)"
  unfolding list_ex_iff set_upt atLeastLessThanSuc_atLeastAtMost ..

lemma includes_ci_substring:
  assumes "map toLowerCase_char searchTerm = searchTerm"
  shows "String_includes (toLowerCase s) searchTerm = ci_substring searchTerm s"
proof -
  have "String_includes (toLowerCase s) searchTerm
        = (\<exists>i\<in>{0..length s}.
             map toLowerCase_char (take (length searchTerm) (drop i s)) = searchTerm)"
    by (simp add: String_includes_iff toLowerCase_def take_map drop_map)
  also have "\<dots> = ci_substring searchTerm s"
    unfolding ci_substring_def list_ex_upt using assms by simp
  finally show ?thesis .
qed

lemma ci_substring_empty: "searchTerm \<noteq> [] \<Longrightarrow> \<not> ci_substring searchTerm []"
  by (auto simp: ci_substring_def)

lemma lower_includes_text:
  assumes "is_JStr v" and "map toLowerCase_char searchTerm = searchTerm"
  shows "lower_includes searchTerm v = Inr (text_matches searchTerm v)"
  using assms by (cases v) (simp_all add: text_matches_def includes_ci_substring)

lemma description_matches_text:
  assumes "optional_text (description t)" and "map toLowerCase_char searchTerm = searchTerm"
      and "searchTerm \<noteq> []"
  shows "description_matches searchTerm t = Inr (text_matches searchTerm (description t))"
proof (cases "description t")
  case (JStr s)
  show ?thesis
  proof (cases "s = []")
    case True
    with JStr assms(3) show ?thesis
      by (simp add: description_matches_def text_matches_def ci_substring_empty)
  next
    case False
    with JStr assms(2) show ?thesis
      by (simp add: description_matches_def text_matches_def includes_ci_substring)
  qed
qed (use assms(1) in \<open>simp_all add: description_matches_def text_matches_def optional_text_def\<close>)

lemma tags_match_text:
  assumes "optional_tags (tags t)" and "map toLowerCase_char searchTerm = searchTerm"
  shows "tags_match searchTerm t
         = Inr (case tags t of
                  JArr vs \<Rightarrow> (\<exists>tag\<in>set vs. text_matches searchTerm tag)
                | _ \<Rightarrow> False)"
proof (cases "tags t")
  case (JArr vs)
  with assms(1) have "\<forall>v\<in>set vs. is_JStr v"
    by (simp add: optional_tags_def list_all_iff)
  then have "\<forall>v\<in>set vs. lower_includes searchTerm v = Inr (text_matches searchTerm v)"
    using assms(2) by (simp add: lower_includes_text)
  from some_err_pure [OF this] JArr show ?thesis by (simp add: tags_match_def)
qed (use assms(1) in \<open>simp_all add: tags_match_def optional_tags_def\<close>)

lemma matchesSearch_spec:
  assumes "well_formed t" and "map toLowerCase_char searchTerm = searchTerm"
      and "searchTerm \<noteq> []"
  shows "matchesSearch searchTerm t = Inr (search_spec searchTerm t)"
proof -
  have 1: "lower_includes searchTerm (title t) = Inr (text_matches searchTerm (title t))"
    using assms by (simp add: well_formed_def lower_includes_text)
  have 2: "description_matches searchTerm t = Inr (text_matches searchTerm (description t))"
    using assms by (simp add: well_formed_def description_matches_text)
  have 3: "tags_match searchTerm t
         = Inr (case tags t of
                  JArr vs \<Rightarrow> (\<exists>tag\<in>set vs. text_matches searchTerm tag)
                | _ \<Rightarrow> False)"
    using assms by (simp add: well_formed_def tags_match_text)
  show ?thesis
    unfolding matchesSearch_def 1 2 3 search_spec_def
    by (simp split: bool.splits)
qed

lemma searchFilter_spec:
  assumes "\<forall>t\<in>set xs. well_formed t" and "trim (toLowerCase input) \<noteq> []"
  shows "searchFilter input xs = Inr (filter (search_spec (trim (toLowerCase input))) xs)"
proof -
  have "\<forall>t\<in>set xs. matchesSearch (trim (toLowerCase input)) t
          = Inr (search_spec (trim (toLowerCase input)) t)"
    using assms by (simp add: matchesSearch_spec searchTerm_lower)
  from filter_err_pure [OF this] assms(2) show ?thesis
    by (simp add: searchFilter_def)
qed

lemma searchFilter_total:
  assumes "\<forall>t\<in>set xs. well_formed t"
  shows "\<exists>ys. searchFilter input xs = Inr ys"
proof (cases "trim (toLowerCase input) = []")
  case True
  then show ?thesis by (simp add: searchFilter_def)
next
  case False
  with searchFilter_spec [OF assms] show ?thesis by blast
qed

lemma absent_fields_no_match:
  assumes "title t = JStr s" "\<not> String_includes (toLowerCase s) searchTerm"
      and "description t = JUndefined \<or> description t = JNull"
      and "tags t = JUndefined \<or> tags t = JNull"
  shows "matchesSearch searchTerm t = Inr False"
  using assms by (auto simp: matchesSearch_def description_matches_def tags_match_def)



section \<open>Totality of the pipeline\<close>

text \<open>
  The pipeline does throw on a task that is not well-formed: with a search text, a task
  whose title is null makes \<open>task.title.toLowerCase()\<close> a TypeError.
\<close>

lemma missing_title_throws:
  "getFilteredAndSortedTasks env0
     (app0\<lparr>tasks := [task0\<lparr>title := JNull\<rparr>], searchInput := ''report''\<rparr>)
   = Inl TypeError"
  by code_simp

text \<open>
  Claim C9. On every list of well-formed tasks, whose due date, description and tags
  may be absent or null, the pipeline returns a list and does not throw. A task without
  a due date is kept by neither \<open>overdue\<close> nor \<open>due_soon\<close>; a task without description and
  tags whose title does not contain the search term is not kept by the search; and,
  the due dates that are set being valid, \<open>due_date_asc\<close> puts the tasks without a due
  date last.
\<close>

theorem getFilteredAndSortedTasks_total:
  assumes wf: "\<forall>t\<in>set (tasks a). well_formed t"
  shows "(\<exists>r. getFilteredAndSortedTasks e a = Inr r)
       \<and> (\<forall>r t. getFilteredAndSortedTasks e a = Inr r \<and> due_date t = None
              \<and> (currentFilter a = ''overdue'' \<or> currentFilter a = ''due_soon'')
            \<longrightarrow> t \<notin> set r)
       \<and> (\<forall>r t s. getFilteredAndSortedTasks e a = Inr r
              \<and> trim (toLowerCase (searchInput a)) \<noteq> []
              \<and> title t = JStr s
              \<and> \<not> String_includes (toLowerCase s) (trim (toLowerCase (searchInput a)))
              \<and> (description t = JUndefined \<or> description t = JNull)
              \<and> (tags t = JUndefined \<or> tags t = JNull)
            \<longrightarrow> t \<notin> set r)
       \<and> (\<forall>r i j. getFilteredAndSortedTasks e a = Inr r \<and> sortSelect a = ''due_date_asc''
              \<and> (\<forall>t\<in>set (tasks a). due_date t \<noteq> Some InvalidDate)
              \<and> i < length r \<and> j < length r
              \<and> due_date (r ! i) \<noteq> None \<and> due_date (r ! j) = None
            \<longrightarrow> i < j)"
proof -
  let ?zs = "categoryFilter (currentCategory a) (statusFilter e (currentFilter a) (tasks a))"
  have sub: "set ?zs \<subseteq> set (tasks a)"
    using categoryFilter_subset statusFilter_subset by blast
  have 1: "\<exists>r. getFilteredAndSortedTasks e a = Inr r"
  proof -
    from wf sub have "\<forall>t\<in>set ?zs. well_formed t" by blast
    from searchFilter_total [OF this, of "searchInput a"] show ?thesis
      by (auto simp: getFilteredAndSortedTasks_def)
  qed
  have 2: "t \<notin> set r"
    if "getFilteredAndSortedTasks e a = Inr r" "due_date t = None"
      "currentFilter a = ''overdue'' \<or> currentFilter a = ''due_soon''" for r t
  proof -
    have "t \<notin> set (statusFilter e (currentFilter a) (tasks a))"
      using that(2,3) by (auto simp: statusFilter_def is_overdue_def is_due_soon_def)
    with pipeline_subset [OF that(1)] show ?thesis by blast
  qed
  have 3: "t \<notin> set r"
    if "getFilteredAndSortedTasks e a = Inr r" "trim (toLowerCase (searchInput a)) \<noteq> []"
      "title t = JStr s"
      "\<not> String_includes (toLowerCase s) (trim (toLowerCase (searchInput a)))"
      "description t = JUndefined \<or> description t = JNull"
      "tags t = JUndefined \<or> tags t = JNull" for r t s
  proof
    assume t: "t \<in> set r"
    from that(1) obtain ys where
      ys: "searchFilter (searchInput a) ?zs = Inr ys" and r: "r = sortTasks (sortSelect a) ys"
      by (rule pipeline_stages)
    from t r have "t \<in> set ys" by (simp add: set_sortTasks)
    moreover from ys that(2)
    have "filter_err (matchesSearch (trim (toLowerCase (searchInput a)))) ?zs = Inr ys"
      by (simp add: searchFilter_def)
    ultimately have "matchesSearch (trim (toLowerCase (searchInput a))) t = Inr True"
      by (rule filter_err_mem [rotated])
    with absent_fields_no_match [OF that(3,4,5,6)] show False by simp
  qed
  have 4: "i < j"
    if "getFilteredAndSortedTasks e a = Inr r" "sortSelect a = ''due_date_asc''"
      "\<forall>t\<in>set (tasks a). due_date t \<noteq> Some InvalidDate"
      "i < length r" "j < length r" "due_date (r ! i) \<noteq> None" "due_date (r ! j) = None"
    for r i j
  proof -
    from that(1) obtain ys where
      ys: "searchFilter (searchInput a) ?zs = Inr ys" and r: "r = sortTasks (sortSelect a) ys"
      by (rule pipeline_stages)
    from searchFilter_subset [OF ys] sub that(3)
    have "\<forall>t\<in>set ys. due_date t \<noteq> Some InvalidDate" by blast
    from sortTasks_due_date_asc [OF this] r that(2) have "sorted (map due_key r)" by simp
    from sorted_due_key_nulls_last [OF this that(4,5,6,7)] show ?thesis .
  qed
  from 1 2 3 4 show ?thesis by blast
qed

theorem getFilteredAndSortedTasks_total_witness:
  "list_all well_formed [task0, due_at 500, tagged_task]
   \<and> due_date task0 = None \<and> description task0 = JNull \<and> tags task0 = JUndefined
   \<and> getFilteredAndSortedTasks env0
        (app0\<lparr>tasks := [task0, due_at 500, tagged_task], currentFilter := ''overdue''\<rparr>)
       = Inr [due_at 500]
   \<and> task0 \<notin> set [due_at 500]
   \<and> getFilteredAndSortedTasks env0
        (app0\<lparr>tasks := [task0, due_at 500, tagged_task], searchInput := ''err''\<rparr>)
       = Inr [tagged_task]
   \<and> task0 \<notin> set [tagged_task]
   \<and> getFilteredAndSortedTasks env0
        (app0\<lparr>tasks := [task0, due_at 500, tagged_task], sortSelect := ''due_date_asc''\<rparr>)
       = Inr [due_at 500, task0, tagged_task]"
proof -
  let ?ts = "[task0, due_at 500, tagged_task]"
  let ?a1 = "app0\<lparr>tasks := ?ts, currentFilter := ''overdue''\<rparr>"
  let ?a2 = "app0\<lparr>tasks := ?ts, searchInput := ''err''\<rparr>"
  let ?a3 = "app0\<lparr>tasks := ?ts, sortSelect := ''due_date_asc''\<rparr>"
  have w: "\<forall>t\<in>set ?ts. well_formed t"
    by (simp add: well_formed_def optional_text_def optional_tags_def tagged_task_def due_at_def
        task0_def)
  have w': "list_all well_formed ?ts" using w by simp
  have f: "due_date task0 = None" "description task0 = JNull" "tags task0 = JUndefined"
    "title task0 = JStr ''Write report''"
    by (simp_all add: task0_def)
  have r1: "getFilteredAndSortedTasks env0 ?a1 = Inr [due_at 500]" by code_simp
  have r2: "getFilteredAndSortedTasks env0 ?a2 = Inr [tagged_task]" by code_simp
  have r3: "getFilteredAndSortedTasks env0 ?a3 = Inr [due_at 500, task0, tagged_task]"
    by code_simp
  have s: "trim (toLowerCase (searchInput ?a2)) \<noteq> []"
    "\<not> String_includes (toLowerCase ''Write report'') (trim (toLowerCase (searchInput ?a2)))"
    by code_simp+
  have n1: "task0 \<notin> set [due_at 500]"
    using getFilteredAndSortedTasks_total [of ?a1 env0] w r1 f(1) by simp
  have n2: "task0 \<notin> set [tagged_task]"
    using getFilteredAndSortedTasks_total [of ?a2 env0] w r2 f s by simp
  from w' f r1 r2 r3 n1 n2 show ?thesis by blast
qed

section \<open>Properties of the logger\<close>

lemma last_n_rev: "drop (length xs - n) xs = rev (take n (rev xs))"
  by (simp add: rev_take)

lemma last_n_append:
  "drop (length (drop (length xs - n) xs @ ys) - n) (drop (length xs - n) xs @ ys)
   = drop (length (xs @ ys) - n) (xs @ ys)"
proof -
  have "rev (take n (rev (rev (take n (rev xs)) @ ys))) = rev (take n (rev (xs @ ys)))"
    by (simp add: min_def)
  then show ?thesis unfolding last_n_rev [symmetric] .
qed

lemma slice_last: "(if length l > n then drop (length l - n) l else l) = drop (length l - n) l"
  by simp

lemma saveToLocalStorage_eq:
  "FrontendLogger_saveToLocalStorage e x a =
     (if storage_accepts e
           (drop (length (FrontendLogger_getLogs a @ [x]) - 1000) (FrontendLogger_getLogs a @ [x]))
      then a\<lparr>frontendLogs :=
               Some (drop (length (FrontendLogger_getLogs a @ [x]) - 1000)
                       (FrontendLogger_getLogs a @ [x]))\<rparr>
      else a\<lparr>console := console a @ [(''error'', msg_save_failed)]\<rparr>)"
  unfolding FrontendLogger_saveToLocalStorage_def Let_def slice_last ..

lemma getLogs_save_rejected:
  "\<not> storage_accepts e
       (drop (length (FrontendLogger_getLogs a @ [x]) - 1000) (FrontendLogger_getLogs a @ [x]))
   \<Longrightarrow> FrontendLogger_getLogs (FrontendLogger_saveToLocalStorage e x a)
       = FrontendLogger_getLogs a"
  unfolding saveToLocalStorage_eq by (simp add: FrontendLogger_getLogs_def)

lemma getLogs_save_accepted:
  "storage_accepts e
     (drop (length (FrontendLogger_getLogs a @ [x]) - 1000) (FrontendLogger_getLogs a @ [x]))
   \<Longrightarrow> FrontendLogger_getLogs (FrontendLogger_saveToLocalStorage e x a)
       = drop (length (FrontendLogger_getLogs a @ [x]) - 1000) (FrontendLogger_getLogs a @ [x])"
  unfolding saveToLocalStorage_eq by (simp add: FrontendLogger_getLogs_def)

lemma save_bound:
  assumes "length (FrontendLogger_getLogs a) \<le> 1000"
  shows "length (FrontendLogger_getLogs (FrontendLogger_saveToLocalStorage e x a)) \<le> 1000"
proof (cases "storage_accepts e
    (drop (length (FrontendLogger_getLogs a @ [x]) - 1000) (FrontendLogger_getLogs a @ [x]))")
  case True
  from getLogs_save_accepted [OF this] show ?thesis by simp
next
  case False
  from getLogs_save_rejected [OF this] assms show ?thesis by simp
qed

lemma fold_save_bound:
  "length (FrontendLogger_getLogs a) \<le> 1000 \<Longrightarrow>
   length (FrontendLogger_getLogs (fold (FrontendLogger_saveToLocalStorage e) es a)) \<le> 1000"
  by (induction es arbitrary: a) (simp_all add: save_bound)

text \<open>When every write is accepted, the buffer holds the last 1000 entries appended.\<close>

lemma fold_save_accepted:
  assumes "\<forall>logs. storage_accepts e logs" and "length (FrontendLogger_getLogs a) \<le> 1000"
  shows "FrontendLogger_getLogs (fold (FrontendLogger_saveToLocalStorage e) es a)
         = drop (length (FrontendLogger_getLogs a @ es) - 1000) (FrontendLogger_getLogs a @ es)"
  using assms(2)
proof (induction es arbitrary: a)
  case Nil
  then show ?case by simp
next
  case (Cons x es)
  have s: "FrontendLogger_getLogs (FrontendLogger_saveToLocalStorage e x a)
       = drop (length (FrontendLogger_getLogs a @ [x]) - 1000) (FrontendLogger_getLogs a @ [x])"
    using assms(1) by (intro getLogs_save_accepted) simp
  have "length (FrontendLogger_getLogs (FrontendLogger_saveToLocalStorage e x a)) \<le> 1000"
    using Cons.prems by (rule save_bound)
  from Cons.IH [OF this] s
  show ?case using last_n_append [of "FrontendLogger_getLogs a @ [x]" 1000 es] by simp
qed

text \<open>
  Claim C7. A stored buffer of at most 1000 entries, the empty one in particular, has at
  most 1000 entries after any sequence of appends. When the storage accepts every write,
  the appends to an empty buffer leave the last 1000 entries appended, the oldest
  evicted first: after 1001 appends the buffer holds all entries but the first, so the
  1001st is present and the first, when it differs from the later ones, is absent.
\<close>

theorem logger_buffer_capped:
  "(length (FrontendLogger_getLogs a) \<le> 1000
      \<longrightarrow> length (FrontendLogger_getLogs (fold (FrontendLogger_saveToLocalStorage e) es a))
            \<le> 1000)
   \<and> ((\<forall>logs. storage_accepts e logs) \<and> FrontendLogger_getLogs a = []
      \<longrightarrow> FrontendLogger_getLogs (fold (FrontendLogger_saveToLocalStorage e) es a)
            = drop (length es - 1000) es)
   \<and> ((\<forall>logs. storage_accepts e logs) \<and> FrontendLogger_getLogs a = [] \<and> length es = 1001
      \<longrightarrow> FrontendLogger_getLogs (fold (FrontendLogger_saveToLocalStorage e) es a) = tl es
          \<and> last es \<in> set (FrontendLogger_getLogs
                              (fold (FrontendLogger_saveToLocalStorage e) es a))
          \<and> (hd es \<notin> set (tl es)
              \<longrightarrow> hd es \<notin> set (FrontendLogger_getLogs
                                   (fold (FrontendLogger_saveToLocalStorage e) es a))))"
proof -
  let ?r = "FrontendLogger_getLogs (fold (FrontendLogger_saveToLocalStorage e) es a)"
  have 1: "length ?r \<le> 1000" if "length (FrontendLogger_getLogs a) \<le> 1000"
    using that by (rule fold_save_bound)
  have 2: "?r = drop (length es - 1000) es"
    if "\<forall>logs. storage_accepts e logs" "FrontendLogger_getLogs a = []"
    using fold_save_accepted [OF that(1), of a es] that(2) by simp
  have 3: "?r = tl es \<and> last es \<in> set ?r \<and> (hd es \<notin> set (tl es) \<longrightarrow> hd es \<notin> set ?r)"
    if "\<forall>logs. storage_accepts e logs" "FrontendLogger_getLogs a = []" "length es = 1001"
  proof -
    from 2 [OF that(1,2)] that(3) have r: "?r = tl es" by (simp add: drop_Suc)
    from that(3) obtain x xs where es: "es = x # xs" "length xs = 1000" by (cases es) auto
    then have "xs \<noteq> []" by auto
    with es have "last es \<in> set (tl es)" by simp
    with r show ?thesis by simp
  qed
  from 1 2 3 show ?thesis by blast
qed

theorem logger_buffer_capped_witness:
  "length (FrontendLogger_getLogs app0) \<le> 1000
   \<and> (\<forall>logs. storage_accepts env0 logs)
   \<and> FrontendLogger_getLogs app0 = []
   \<and> length (first_entry # replicate 1000 later_entry) = 1001
   \<and> FrontendLogger_getLogs
        (fold (FrontendLogger_saveToLocalStorage env0)
           (first_entry # replicate 1000 later_entry) app0)
       = replicate 1000 later_entry
   \<and> first_entry \<notin> set (FrontendLogger_getLogs
        (fold (FrontendLogger_saveToLocalStorage env0)
           (first_entry # replicate 1000 later_entry) app0))
   \<and> later_entry \<in> set (FrontendLogger_getLogs
        (fold (FrontendLogger_saveToLocalStorage env0)
           (first_entry # replicate 1000 later_entry) app0))"
proof -
  have a: "\<forall>logs. storage_accepts env0 logs" by (simp add: env0_def)
  have b: "FrontendLogger_getLogs app0 = []" by (simp add: FrontendLogger_getLogs_def app0_def)
  have c: "length (first_entry # replicate 1000 later_entry) = 1001" by simp
  have d: "first_entry \<noteq> later_entry" by (simp add: first_entry_def later_entry_def)
  from logger_buffer_capped [of app0 env0 "first_entry # replicate 1000 later_entry"] a b c
  have "FrontendLogger_getLogs
          (fold (FrontendLogger_saveToLocalStorage env0)
             (first_entry # replicate 1000 later_entry) app0)
       = replicate 1000 later_entry" by simp
  with a b d show ?thesis by simp
qed

section \<open>Properties of loadTasks\<close>

lemma tasks_log: "tasks (FrontendLogger_log e lvl msg err a) = tasks a"
  by (simp add: FrontendLogger_log_def Let_def FrontendLogger_sendToServer_def
      saveToLocalStorage_eq)

lemma console_save:
  "\<exists>extra. console (FrontendLogger_saveToLocalStorage e x a) = console a @ extra"
  unfolding saveToLocalStorage_eq by simp

lemma log_eq:
  "FrontendLogger_log e lvl msg err a =
     (if lvl = ''error'' then FrontendLogger_sendToServer else (\<lambda>x a. a))
       \<lparr>timestamp = clock e (ticks a), level = lvl, message = msg, error = err\<rparr>
       (FrontendLogger_saveToLocalStorage e
          \<lparr>timestamp = clock e (ticks a), level = lvl, message = msg, error = err\<rparr>
          (a\<lparr>ticks := Suc (ticks a),
              console := console a
                @ [(consoleMethod lvl, console_text (clock e (ticks a)) lvl msg)]\<rparr>))"
  by (simp add: FrontendLogger_log_def Let_def)

text \<open>A call of \<open>log\<close> prints its line with the method of its level.\<close>

lemma console_log:
  "\<exists>extra. console (FrontendLogger_log e lvl msg err a)
     = console a @ (consoleMethod lvl, console_text (clock e (ticks a)) lvl msg) # extra"
proof -
  let ?a1 = "a\<lparr>ticks := Suc (ticks a),
              console := console a
                @ [(consoleMethod lvl, console_text (clock e (ticks a)) lvl msg)]\<rparr>"
  let ?x = "\<lparr>timestamp = clock e (ticks a), level = lvl, message = msg, error = err\<rparr>"
  obtain extra where "console (FrontendLogger_saveToLocalStorage e ?x ?a1) = console ?a1 @ extra"
    using console_save by blast
  then show ?thesis
    unfolding log_eq by (auto simp: FrontendLogger_sendToServer_def)
qed

text \<open>When the storage accepts every write, the entry logged is the last of the buffer.\<close>

lemma getLogs_log_accepted:
  assumes "\<forall>logs. storage_accepts e logs"
  shows "last (FrontendLogger_getLogs (FrontendLogger_log e lvl msg err a))
          = \<lparr>timestamp = clock e (ticks a), level = lvl, message = msg, error = err\<rparr>"
proof -
  let ?a1 = "a\<lparr>ticks := Suc (ticks a),
              console := console a
                @ [(consoleMethod lvl, console_text (clock e (ticks a)) lvl msg)]\<rparr>"
  let ?x = "\<lparr>timestamp = clock e (ticks a), level = lvl, message = msg, error = err\<rparr>"
  have "FrontendLogger_getLogs (FrontendLogger_saveToLocalStorage e ?x ?a1)
        = drop (length (FrontendLogger_getLogs ?a1 @ [?x]) - 1000)
            (FrontendLogger_getLogs ?a1 @ [?x])"
    using assms by (intro getLogs_save_accepted) simp
  moreover have "FrontendLogger_getLogs (FrontendLogger_log e lvl msg err a)
        = FrontendLogger_getLogs (FrontendLogger_saveToLocalStorage e ?x ?a1)"
    unfolding log_eq by (auto simp: FrontendLogger_sendToServer_def FrontendLogger_getLogs_def)
  ultimately show ?thesis by simp
qed

lemma getLogs_tasks_update:
  "FrontendLogger_getLogs (a\<lparr>tasks := ts\<rparr>) = FrontendLogger_getLogs a"
  by (simp add: FrontendLogger_getLogs_def)

text \<open>
  Claim C2. On a response that \<open>axios\<close> resolved: when the payload is missing or its
  \<open>tasks\<close> field is not an array, \<open>loadTasks\<close> is fulfilled (it does not throw), the
  task list becomes empty, and a line is printed with \<open>console.warn\<close>; the entry of
  level \<open>warn\<close> is the last of the stored log when the storage accepts the writes.
  When the field is an array, \<open>loadTasks\<close> is fulfilled and the task list becomes that
  array.
\<close>

theorem loadTasks_malformed_response:
  "(data r = Some (TaskArray ts)
      \<longrightarrow> fst (loadTasks e (Resolved (Some r)) a) = Fulfilled
          \<and> tasks (snd (loadTasks e (Resolved (Some r)) a)) = ts)
   \<and> (data r = None \<or> data r = Some NotAnArray
      \<longrightarrow> fst (loadTasks e (Resolved (Some r)) a) = Fulfilled
          \<and> tasks (snd (loadTasks e (Resolved (Some r)) a)) = []
          \<and> (\<exists>line \<in> set (drop (length (console a))
                             (console (snd (loadTasks e (Resolved (Some r)) a)))).
                fst line = ''warn'')
          \<and> ((\<forall>logs. storage_accepts e logs)
              \<longrightarrow> level (last (FrontendLogger_getLogs
                                  (snd (loadTasks e (Resolved (Some r)) a)))) = ''warn''))"
proof -
  let ?a1 = "FrontendLogger_log e ''info'' msg_load_start None a"
  let ?a2 = "FrontendLogger_log e ''info'' msg_load_response
                         (Some \<lparr>err_message = None, err_stack = None\<rparr>) ?a1"
  let ?w = "FrontendLogger_log e ''warn'' msg_bad_format
                         (Some \<lparr>err_message = Some msg_not_array,
                                err_stack = Some (engine_stack e)\<rparr>) ?a2"
  have ok: "loadTasks e (Resolved (Some r)) a
        = (Fulfilled,
           (FrontendLogger_log e ''info'' (msg_loaded (length ts)) None ?a2)\<lparr>tasks := ts\<rparr>)"
    if "data r = Some (TaskArray ts)"
    using that by (simp add: loadTasks_def Let_def)
  have bad: "loadTasks e (Resolved (Some r)) a = (Fulfilled, ?w\<lparr>tasks := []\<rparr>)"
    if "data r = None \<or> data r = Some NotAnArray"
    using that by (auto simp: loadTasks_def Let_def)
  obtain x1 where c1: "console ?a1 = console a @ x1" using console_log by blast
  obtain x2 where c2: "console ?a2 = console ?a1 @ x2" using console_log by blast
  obtain x3 where c3: "console ?w = console ?a2
      @ (''warn'', console_text (clock e (ticks ?a2)) ''warn'' msg_bad_format) # x3"
    using console_log [of e "''warn''" msg_bad_format _ ?a2] by (auto simp: consoleMethod_def)
  have cw: "\<exists>line \<in> set (drop (length (console a)) (console ?w)). fst line = ''warn''"
    unfolding c3 c2 c1 by simp
  have lw: "level (last (FrontendLogger_getLogs ?w)) = ''warn''"
    if "\<forall>logs. storage_accepts e logs"
    using getLogs_log_accepted [OF that, of "''warn''" msg_bad_format _ ?a2] by simp
  from ok bad cw lw show ?thesis by (simp add: getLogs_tasks_update)
qed

theorem loadTasks_malformed_response_witness:
  "data \<lparr>data = Some NotAnArray\<rparr> = Some NotAnArray
   \<and> (\<forall>logs. storage_accepts env0 logs)
   \<and> tasks (app0\<lparr>tasks := [task0]\<rparr>) = [task0]
   \<and> fst (loadTasks env0 (Resolved (Some \<lparr>data = Some NotAnArray\<rparr>)) (app0\<lparr>tasks := [task0]\<rparr>))
       = Fulfilled
   \<and> tasks (snd (loadTasks env0 (Resolved (Some \<lparr>data = Some NotAnArray\<rparr>))
                   (app0\<lparr>tasks := [task0]\<rparr>))) = []
   \<and> level (last (FrontendLogger_getLogs
        (snd (loadTasks env0 (Resolved (Some \<lparr>data = Some NotAnArray\<rparr>))
                (app0\<lparr>tasks := [task0]\<rparr>))))) = ''warn''
   \<and> tasks (snd (loadTasks env0 (Resolved (Some \<lparr>data = Some (TaskArray [task0, tagged_task])\<rparr>))
                   app0)) = [task0, tagged_task]"
proof -
  have a: "\<forall>logs. storage_accepts env0 logs" by (simp add: env0_def)
  have b: "data \<lparr>data = Some NotAnArray\<rparr> = Some NotAnArray" by simp
  have c: "data \<lparr>data = Some (TaskArray [task0, tagged_task])\<rparr>
           = Some (TaskArray [task0, tagged_task])" by simp
  from loadTasks_malformed_response
         [of "\<lparr>data = Some NotAnArray\<rparr>" "[]" env0 "app0\<lparr>tasks := [task0]\<rparr>"]
       loadTasks_malformed_response
         [of "\<lparr>data = Some (TaskArray [task0, tagged_task])\<rparr>" "[task0, tagged_task]" env0 app0]
       a b c
  show ?thesis by simp
qed

end
